theory Spec2Isabelle
  imports Main "HOL-Library.Word" "HOL-Library.Sublist"
begin

section \<open>Memory, pointers and the C library\<close>

text \<open>
  The parser of \<^verbatim>\<open>http_parser.c\<close> works on C strings. The model keeps one flat
  memory segment, a list of bytes; a \<^verbatim>\<open>char*\<close> into it is an offset (an \<open>int\<close>, so that
  the pointer arithmetic of the source can leave the segment), and \<open>None\<close> is \<^verbatim>\<open>NULL\<close>.
  A read outside the segment is the error \<open>OutOfBounds\<close>. Offsets are unbounded
  integers: the C \<^verbatim>\<open>int\<close>s of the line parsers hold them exactly for a segment shorter
  than \<open>2 ^ 31\<close> bytes. The one place where the source computes in \<^verbatim>\<open>unsigned\<close>,
  \<^verbatim>\<open>parse_body_head\<close>, is modelled on 32-bit words.
\<close>

type_synonym ptr = "int option"

datatype error = OutOfBounds | NullDeref | UninitRead | IntOverflow

text \<open>
  The content of a \<^verbatim>\<open>char*\<close> variable that the parser writes through an output
  parameter: not initialised, \<^verbatim>\<open>NULL\<close>, or the address of a string.
\<close>

datatype strptr = Indeterminate | NullPtr | StrPtr string

definition NUL :: char where "NUL = CHR 0x00"
definition CR :: char where "CR = CHR 0x0D"
definition LF :: char where "LF = CHR 0x0A"
definition CRLF :: string where "CRLF = [CR, LF]"

text \<open>The C string at an address: the bytes before the first \<open>NUL\<close>.\<close>

definition cstr :: "char list \<Rightarrow> int \<Rightarrow> string option" where
  "cstr mem p =
     (if 0 \<le> p \<and> NUL \<in> set (drop (nat p) mem)
      then Some (takeWhile (\<lambda>c. c \<noteq> NUL) (drop (nat p) mem))
      else None)"

text \<open>
  \<^verbatim>\<open>strstr\<close>: the offset of the first occurrence of the needle in a C string,
  \<open>None\<close> for the \<^verbatim>\<open>NULL\<close> it returns when there is none.
\<close>

fun strstr :: "string \<Rightarrow> string \<Rightarrow> nat option" where
  "strstr [] needle = (if needle = [] then Some 0 else None)"
| "strstr (c # cs) needle =
     (if take (length needle) (c # cs) = needle then Some 0
      else map_option Suc (strstr cs needle))"

text \<open>\<^verbatim>\<open>memcpy\<close> of \<open>k\<close> bytes out of the segment, from offset \<open>off\<close>.\<close>

definition memcpy :: "char list \<Rightarrow> nat \<Rightarrow> nat \<Rightarrow> error + string" where
  "memcpy mem off k =
     (if off + k \<le> length mem then Inr (take k (drop off mem)) else Inl OutOfBounds)"

text \<open>
  \<^verbatim>\<open>atoi\<close> as the C standard gives it: white space is skipped, then an optional
  sign, then the longest run of decimal digits is decoded; no digits give 0. A value
  that an \<^verbatim>\<open>int\<close> cannot hold is undefined behaviour, the error \<open>IntOverflow\<close>.
\<close>

definition isspace :: "char \<Rightarrow> bool" where
  "isspace c = (c \<in> set [CHR '' '', CHR 0x09, CHR 0x0A, CHR 0x0B, CHR 0x0C, CHR 0x0D])"

definition isdigit :: "char \<Rightarrow> bool" where
  "isdigit c = (48 \<le> (of_char c :: nat) \<and> (of_char c :: nat) \<le> 57)"

fun digits_value :: "int \<Rightarrow> string \<Rightarrow> int" where
  "digits_value acc [] = acc"
| "digits_value acc (c # cs) =
     (if isdigit c then digits_value (10 * acc + (of_char c - 48)) cs else acc)"

definition skip_sign :: "string \<Rightarrow> bool \<times> string" where
  "skip_sign s =
     (case s of [] \<Rightarrow> (False, [])
      | c # cs \<Rightarrow> if c = CHR ''-'' then (True, cs)
                  else if c = CHR ''+'' then (False, cs) else (False, s))"

definition atoi :: "string \<Rightarrow> error + int" where
  "atoi s =
     (let (neg, ds) = skip_sign (dropWhile isspace s);
          v = digits_value 0 ds;
          r = (if neg then - v else v)
      in if - (2 ^ 31) \<le> r \<and> r < 2 ^ 31 then Inr r else Inl IntOverflow)"

text \<open>
  \<^verbatim>\<open>malloc\<close> is a parameter of every function that allocates: \<open>alloc k\<close> tells
  whether a request for \<open>k\<close> bytes succeeds.
\<close>

definition always_alloc :: "nat \<Rightarrow> bool" where
  "always_alloc k = True"

text \<open>An allocator that refuses a block of \<open>2 ^ 31\<close> bytes or more.\<close>

definition bounded_alloc :: "nat \<Rightarrow> bool" where
  "bounded_alloc k = (k < 2 ^ 31)"

text \<open>Pointer difference \<^verbatim>\<open>a - b\<close>; with a \<^verbatim>\<open>NULL\<close> operand it is undefined.\<close>

definition ptr_diff :: "ptr \<Rightarrow> ptr \<Rightarrow> error + int" where
  "ptr_diff a b =
     (case (a, b) of (Some x, Some y) \<Rightarrow> Inr (x - y) | _ \<Rightarrow> Inl NullDeref)"

section \<open>The delimiter tokenizer\<close>

text \<open>
  \<^verbatim>\<open>get_prefix(str, delim, out_prefix)\<close> returns the cursor and the new content of
  \<^verbatim>\<open>*out_prefix\<close>. The source tests \<^verbatim>\<open>out_prefix == NULL\<close> after \<^verbatim>\<open>malloc\<close>, not
  \<^verbatim>\<open>*out_prefix\<close>, so a failed allocation goes on to write through a null pointer.
\<close>

definition get_prefix ::
  "(nat \<Rightarrow> bool) \<Rightarrow> char list \<Rightarrow> ptr \<Rightarrow> string \<Rightarrow> strptr \<Rightarrow> error + (ptr \<times> strptr)" where
  "get_prefix alloc mem str delim out_prefix =
     (case str of
        None \<Rightarrow> Inr (None, out_prefix)
      | Some p \<Rightarrow>
          (case cstr mem p of
             None \<Rightarrow> Inl OutOfBounds
           | Some s \<Rightarrow>
               (case strstr s delim of
                  None \<Rightarrow> Inr (None, out_prefix)
                | Some len \<Rightarrow>
                    if alloc (len + 1)
                    then Inr (Some (p + int len + int (length delim)), StrPtr (take len s))
                    else Inl NullDeref)))"

section \<open>The line parsers\<close>

definition parse_request_line ::
  "(nat \<Rightarrow> bool) \<Rightarrow> char list \<Rightarrow> ptr \<Rightarrow> strptr \<times> strptr \<times> strptr
     \<Rightarrow> error + (int \<times> strptr \<times> strptr \<times> strptr)" where
  "parse_request_line alloc mem line outs =
     (case outs of (out_method, out_url, out_version) \<Rightarrow>
      (case get_prefix alloc mem line '' '' out_method of
         Inl e \<Rightarrow> Inl e
       | Inr (st1, m) \<Rightarrow>
           if st1 = None then Inr (- 1, m, out_url, out_version)
           else
             (case get_prefix alloc mem st1 '' '' out_url of
                Inl e \<Rightarrow> Inl e
              | Inr (st2, u) \<Rightarrow>
                  if st2 = None then Inr (- 1, m, u, out_version)
                  else
                    (case get_prefix alloc mem st2 CRLF out_version of
                       Inl e \<Rightarrow> Inl e
                     | Inr (st3, v) \<Rightarrow>
                         if st3 = None then Inr (- 1, m, u, v)
                         else
                           (case ptr_diff st3 line of
                              Inl e \<Rightarrow> Inl e
                            | Inr len \<Rightarrow> Inr (len, m, u, v))))))"

definition parse_header_line ::
  "(nat \<Rightarrow> bool) \<Rightarrow> char list \<Rightarrow> ptr \<Rightarrow> strptr \<times> strptr
     \<Rightarrow> error + (int \<times> strptr \<times> strptr)" where
  "parse_header_line alloc mem line outs =
     (case outs of (out_name, out_value) \<Rightarrow>
      (case get_prefix alloc mem line '': '' out_name of
         Inl e \<Rightarrow> Inl e
       | Inr (st1, nm) \<Rightarrow>
           if st1 = None then Inr (- 1, nm, out_value)
           else
             (case get_prefix alloc mem st1 CRLF out_value of
                Inl e \<Rightarrow> Inl e
              | Inr (st2, v) \<Rightarrow>
                  if st2 = None then Inr (- 1, nm, v)
                  else
                    (case ptr_diff st2 line of
                       Inl e \<Rightarrow> Inl e
                     | Inr len \<Rightarrow> Inr (len, nm, v)))))"

text \<open>
  \<^verbatim>\<open>parse_status_line\<close> tests the output strings, not the cursor, and its local
  \<^verbatim>\<open>status_code\<close> starts uninitialised: comparing an indeterminate pointer is the
  error \<open>UninitRead\<close>.
\<close>

definition parse_status_line ::
  "(nat \<Rightarrow> bool) \<Rightarrow> char list \<Rightarrow> ptr \<Rightarrow> strptr \<times> int \<times> strptr
     \<Rightarrow> error + (int \<times> strptr \<times> int \<times> strptr)" where
  "parse_status_line alloc mem line outs =
     (case outs of (out_version, out_status_code, out_phrase) \<Rightarrow>
      (case get_prefix alloc mem line '' '' out_version of
         Inl e \<Rightarrow> Inl e
       | Inr (st1, v) \<Rightarrow>
           (case v of
              Indeterminate \<Rightarrow> Inl UninitRead
            | NullPtr \<Rightarrow> Inr (- 1, v, out_status_code, out_phrase)
            | StrPtr _ \<Rightarrow>
                (case get_prefix alloc mem st1 '' '' Indeterminate of
                   Inl e \<Rightarrow> Inl e
                 | Inr (st2, status_code) \<Rightarrow>
                     (case status_code of
                        Indeterminate \<Rightarrow> Inl UninitRead
                      | NullPtr \<Rightarrow> Inr (- 1, v, out_status_code, out_phrase)
                      | StrPtr code \<Rightarrow>
                          (case atoi code of
                             Inl e \<Rightarrow> Inl e
                           | Inr sc \<Rightarrow>
                               (case get_prefix alloc mem st2 CRLF out_phrase of
                                  Inl e \<Rightarrow> Inl e
                                | Inr (st3, ph) \<Rightarrow>
                                    (case ph of
                                       Indeterminate \<Rightarrow> Inl UninitRead
                                     | NullPtr \<Rightarrow> Inr (- 1, v, sc, ph)
                                     | StrPtr _ \<Rightarrow>
                                         (case ptr_diff st3 line of
                                            Inl e \<Rightarrow> Inl e
                                          | Inr len \<Rightarrow> Inr (len, v, sc, ph))))))))))"

section \<open>The head/body splitter\<close>

record body_head_out =
  out_head :: strptr
  out_head_len :: int
  out_body :: strptr
  out_body_len :: int

definition head_body_sep :: string where
  "head_body_sep = CRLF @ CRLF"

text \<open>
  \<^verbatim>\<open>parse_body_head(buf, n, ...)\<close>. The local \<^verbatim>\<open>size\<close> is \<^verbatim>\<open>unsigned\<close>: a 32-bit
  word, so \<^verbatim>\<open>n - size - strlen("\r\n")\<close> wraps around when the separator ends beyond
  \<open>n\<close>. A block of \<^verbatim>\<open>size + 1\<close> bytes is requested, with the sum taken in
  \<^verbatim>\<open>unsigned\<close> as well: when it wraps to 0 the copy overruns the block. The copies
  hold \<^verbatim>\<open>size\<close> bytes (the body may contain \<open>NUL\<close>), followed by a terminator.
\<close>

definition parse_body_head ::
  "(nat \<Rightarrow> bool) \<Rightarrow> char list \<Rightarrow> ptr \<Rightarrow> int \<Rightarrow> body_head_out \<Rightarrow> error + body_head_out" where
  "parse_body_head alloc mem buf n outs =
     (case buf of
        None \<Rightarrow> Inr outs
      | Some p \<Rightarrow>
          (case cstr mem p of
             None \<Rightarrow> Inl OutOfBounds
           | Some s \<Rightarrow>
               (case strstr s head_body_sep of
                  None \<Rightarrow> Inr outs
                | Some pos \<Rightarrow>
                    (let size = (word_of_nat (pos + 2) :: 32 word) in
                     if \<not> alloc (unat (size + 1)) then Inr (outs\<lparr>out_head := NullPtr\<rparr>)
                     else if size + 1 = 0 then Inl OutOfBounds
                     else
                       (case memcpy mem (nat p) (unat size) of
                          Inl e \<Rightarrow> Inl e
                        | Inr head \<Rightarrow>
                            (let outs1 = outs\<lparr>out_head := StrPtr head, out_head_len := sint size\<rparr>;
                                 bsize = (word_of_int n :: 32 word) - size - 2
                             in if \<not> alloc (unat (bsize + 1)) then Inr (outs1\<lparr>out_body := NullPtr\<rparr>)
                                else if bsize + 1 = 0 then Inl OutOfBounds
                                else
                                  (case memcpy mem (nat p + pos + 4) (unat bsize) of
                                     Inl e \<Rightarrow> Inl e
                                   | Inr body \<Rightarrow>
                                       Inr (outs1\<lparr>out_body := StrPtr body,
                                                  out_body_len := sint bsize\<rparr>))))))))"

section \<open>The head assemblers\<close>

record request_out =
  req_method :: strptr
  req_url :: strptr
  req_version :: strptr
  req_host :: strptr

record response_out =
  resp_version :: strptr
  resp_status_code :: int
  resp_phrase :: strptr
  resp_content_length :: int
  resp_cache_control :: strptr

text \<open>\<^verbatim>\<open>p != NULL && strcmp(p, t) == 0\<close> on a pointer that is null or a string.\<close>

definition streq :: "strptr \<Rightarrow> string \<Rightarrow> bool" where
  "streq p t = (case p of StrPtr s \<Rightarrow> s = t | _ \<Rightarrow> False)"

text \<open>
  One pass through the body of the \<^verbatim>\<open>while\<close> loop of \<^verbatim>\<open>parse_request_head\<close>:
  \<^verbatim>\<open>name\<close> and \<^verbatim>\<open>value\<close> are \<^verbatim>\<open>NULL\<close> at its start, and the cursor moves by the
  result of \<^verbatim>\<open>parse_header_line\<close>, which the source does not test: \<open>- 1\<close> for an
  invalid line.
\<close>

definition request_header_step ::
  "(nat \<Rightarrow> bool) \<Rightarrow> char list \<Rightarrow> int \<Rightarrow> strptr \<Rightarrow> error + (int \<times> strptr)" where
  "request_header_step alloc mem st out_host =
     (case parse_header_line alloc mem (Some st) (NullPtr, NullPtr) of
        Inl e \<Rightarrow> Inl e
      | Inr (len, name, val) \<Rightarrow>
          Inr (st + len, if name \<noteq> NullPtr \<and> streq name ''Host'' then val else out_host))"

partial_function (option) request_header_loop ::
  "(nat \<Rightarrow> bool) \<Rightarrow> char list \<Rightarrow> int \<Rightarrow> int \<Rightarrow> strptr \<Rightarrow> (error + strptr) option" where
  "request_header_loop alloc mem endp st out_host =
     (if st < endp
      then (case request_header_step alloc mem st out_host of
              Inl e \<Rightarrow> Some (Inl e)
            | Inr (st', host') \<Rightarrow> request_header_loop alloc mem endp st' host')
      else Some (Inr out_host))"

text \<open>
  \<^verbatim>\<open>parse_request_head\<close>; the result \<open>None\<close> is a loop that never ends.
\<close>

definition parse_request_head ::
  "(nat \<Rightarrow> bool) \<Rightarrow> char list \<Rightarrow> ptr \<Rightarrow> request_out \<Rightarrow> (error + request_out) option" where
  "parse_request_head alloc mem request outs =
     (case request of
        None \<Rightarrow> Some (Inl NullDeref)
      | Some p \<Rightarrow>
          (case cstr mem p of
             None \<Rightarrow> Some (Inl OutOfBounds)
           | Some s \<Rightarrow>
               (case parse_request_line alloc mem request
                       (req_method outs, req_url outs, req_version outs) of
                  Inl e \<Rightarrow> Some (Inl e)
                | Inr (len, m, u, v) \<Rightarrow>
                    (case request_header_loop alloc mem (p + int (length s)) (p + len)
                            (req_host outs) of
                       None \<Rightarrow> None
                     | Some (Inl e) \<Rightarrow> Some (Inl e)
                     | Some (Inr h) \<Rightarrow>
                         Some (Inr \<lparr>req_method = m, req_url = u, req_version = v,
                                    req_host = h\<rparr>)))))"

text \<open>
  The loop body of \<^verbatim>\<open>parse_response_head\<close>. \<^verbatim>\<open>atoi(value)\<close> runs whenever the name
  is \<^verbatim>\<open>Content-Length\<close>, also when the value was not found and is still \<^verbatim>\<open>NULL\<close>.
\<close>

definition response_header_step ::
  "(nat \<Rightarrow> bool) \<Rightarrow> char list \<Rightarrow> int \<Rightarrow> int \<times> strptr \<Rightarrow> error + (int \<times> int \<times> strptr)" where
  "response_header_step alloc mem st outs =
     (case outs of (out_content_length, out_cache_control) \<Rightarrow>
      (case parse_header_line alloc mem (Some st) (NullPtr, NullPtr) of
         Inl e \<Rightarrow> Inl e
       | Inr (len, name, val) \<Rightarrow>
           if name \<noteq> NullPtr then
             (if streq name ''Content-Length'' then
                (case val of
                   StrPtr v \<Rightarrow>
                     (case atoi v of
                        Inl e \<Rightarrow> Inl e
                      | Inr k \<Rightarrow> Inr (st + len, k, out_cache_control))
                 | _ \<Rightarrow> Inl NullDeref)
              else if streq name ''Cache-Control'' then Inr (st + len, out_content_length, val)
              else Inr (st + len, out_content_length, out_cache_control))
           else Inr (st + len, out_content_length, out_cache_control)))"

partial_function (option) response_header_loop ::
  "(nat \<Rightarrow> bool) \<Rightarrow> char list \<Rightarrow> int \<Rightarrow> int \<Rightarrow> int \<times> strptr
     \<Rightarrow> (error + int \<times> strptr) option" where
  "response_header_loop alloc mem endp st outs =
     (if st < endp
      then (case response_header_step alloc mem st outs of
              Inl e \<Rightarrow> Some (Inl e)
            | Inr (st', outs') \<Rightarrow> response_header_loop alloc mem endp st' outs')
      else Some (Inr outs))"

definition parse_response_head ::
  "(nat \<Rightarrow> bool) \<Rightarrow> char list \<Rightarrow> ptr \<Rightarrow> response_out \<Rightarrow> (error + response_out) option" where
  "parse_response_head alloc mem response outs =
     (case response of
        None \<Rightarrow> Some (Inl NullDeref)
      | Some p \<Rightarrow>
          (case cstr mem p of
             None \<Rightarrow> Some (Inl OutOfBounds)
           | Some s \<Rightarrow>
               (case parse_status_line alloc mem response
                       (resp_version outs, resp_status_code outs, resp_phrase outs) of
                  Inl e \<Rightarrow> Some (Inl e)
                | Inr (len, v, sc, ph) \<Rightarrow>
                    (case response_header_loop alloc mem (p + int (length s)) (p + len)
                            (resp_content_length outs, resp_cache_control outs) of
                       None \<Rightarrow> None
                     | Some (Inl e) \<Rightarrow> Some (Inl e)
                     | Some (Inr (cl, cc)) \<Rightarrow>
                         Some (Inr \<lparr>resp_version = v, resp_status_code = sc, resp_phrase = ph,
                                    resp_content_length = cl, resp_cache_control = cc\<rparr>)))))"

section \<open>The host field\<close>

record host_out =
  out_hostname :: strptr
  out_port :: int

text \<open>
  \<^verbatim>\<open>parse_host_field\<close>: without a colon the host name is a \<^verbatim>\<open>strdup\<close> of the whole
  field (\<^verbatim>\<open>NULL\<close> when the allocation fails); \<^verbatim>\<open>atoi\<close> runs only when the cursor
  after the colon is before the end of the field.
\<close>

definition parse_host_field ::
  "(nat \<Rightarrow> bool) \<Rightarrow> char list \<Rightarrow> ptr \<Rightarrow> host_out \<Rightarrow> error + host_out" where
  "parse_host_field alloc mem host outs =
     (case get_prefix alloc mem host '':'' (out_hostname outs) of
        Inl e \<Rightarrow> Inl e
      | Inr (st, hn) \<Rightarrow>
          (case host of
             None \<Rightarrow> Inl NullDeref
           | Some h \<Rightarrow>
               (case cstr mem h of
                  None \<Rightarrow> Inl OutOfBounds
                | Some s \<Rightarrow>
                    (case st of
                       None \<Rightarrow>
                         Inr (outs\<lparr>out_hostname :=
                                    if alloc (length s + 1) then StrPtr s else NullPtr\<rparr>)
                     | Some q \<Rightarrow>
                         if q < h + int (length s) then
                           (case cstr mem q of
                              None \<Rightarrow> Inl OutOfBounds
                            | Some r \<Rightarrow>
                                (case atoi r of
                                   Inl e \<Rightarrow> Inl e
                                 | Inr port \<Rightarrow>
                                     Inr (outs\<lparr>out_hostname := hn, out_port := port\<rparr>)))
                         else Inr (outs\<lparr>out_hostname := hn\<rparr>)))))"

section \<open>Vocabulary of the properties\<close>

text \<open>
  \<open>first_occ d s i\<close>: the first occurrence of \<open>d\<close> in \<open>s\<close> starts at offset \<open>i\<close>.
  That \<open>d\<close> occurs in \<open>s\<close> at all is \<open>sublist d s\<close>.
\<close>

definition first_occ :: "string \<Rightarrow> string \<Rightarrow> nat \<Rightarrow> bool" where
  "first_occ d s i \<longleftrightarrow>
     take (length d) (drop i s) = d \<and> (\<forall>j<i. take (length d) (drop j s) \<noteq> d)"

text \<open>
  A token is non-numeric when, after the white space and the sign that \<^verbatim>\<open>atoi\<close>
  skips, it does not go on with a digit.
\<close>

definition non_numeric :: "string \<Rightarrow> bool" where
  "non_numeric s =
     (case snd (skip_sign (dropWhile isspace s)) of [] \<Rightarrow> True | c # _ \<Rightarrow> \<not> isdigit c)"

text \<open>
  The decimal value of a string of digits, by position: what decoding a decimal integer
  means, stated apart from the loop of \<^verbatim>\<open>atoi\<close>.
\<close>

definition decimal :: "string \<Rightarrow> int" where
  "decimal ds = (\<Sum>i<length ds. (of_char (ds ! i) - 48) * 10 ^ (length ds - 1 - i))"

section \<open>Concrete inputs\<close>

text \<open>The output parameters of \<^verbatim>\<open>parse_body_head\<close> before a call: nothing set.\<close>

definition no_body_head :: body_head_out where
  "no_body_head = \<lparr>out_head = NullPtr, out_head_len = 0, out_body = NullPtr, out_body_len = 0\<rparr>"

text \<open>The request of the specification's examples, with an empty body.\<close>

definition get_request :: string where
  "get_request = ''GET /x HTTP/1.1'' @ CRLF @ ''Host: a.com'' @ CRLF @ CRLF"

text \<open>A request line followed by one header line.\<close>

definition request_line_only :: string where
  "request_line_only = ''GET /x HTTP/1.1'' @ CRLF @ ''Host: a.com'' @ CRLF"

text \<open>A request line without a version, followed by one header line.\<close>

definition urlless_request :: string where
  "urlless_request = ''GET /x'' @ CRLF @ ''Host: a.com'' @ CRLF"

text \<open>The output parameters of \<^verbatim>\<open>parse_host_field\<close> before a call.\<close>

definition no_host :: host_out where
  "no_host = \<lparr>out_hostname = NullPtr, out_port = - 1\<rparr>"

text \<open>
  A request and a response whose second header line is malformed, after a well-formed
  first line and a well-formed header line.
\<close>

definition looping_request :: string where
  "looping_request = ''GET / HTTP/1.1'' @ CRLF @ ''A: b'' @ CRLF @ ''bad'' @ CRLF"

definition looping_response :: string where
  "looping_response = ''HTTP/1.1 200 OK'' @ CRLF @ ''A: b'' @ CRLF @ ''bad'' @ CRLF"

text \<open>The output parameters of the head assemblers before a call.\<close>

definition no_request :: request_out where
  "no_request = \<lparr>req_method = NullPtr, req_url = NullPtr, req_version = NullPtr,
                  req_host = NullPtr\<rparr>"

definition no_response :: response_out where
  "no_response = \<lparr>resp_version = NullPtr, resp_status_code = 0, resp_phrase = NullPtr,
                   resp_content_length = - 1, resp_cache_control = NullPtr\<rparr>"

text \<open>
  A memory that holds \<^verbatim>\<open>"Host: a.com\r\n"\<close>: the request handed to the parser starts at
  its second byte, so its first line \<^verbatim>\<open>"ost: a.com\r\n"\<close> has a single space and is
  invalid. And a response whose first line has no space at all.
\<close>

definition shifted_request :: string where
  "shifted_request = ''Host: a.com'' @ CRLF"

definition spaceless_response :: string where
  "spaceless_response = ''x'' @ CRLF"

section \<open>Facts about strings and the memory model\<close>

lemma strstr_Some_iff: "strstr s d = Some i \<longleftrightarrow> first_occ d s i"
proof (induction s arbitrary: i)
  case Nil
  show ?case
    by (cases i) (auto simp: first_occ_def)
next
  case (Cons c cs)
  show ?case
  proof (cases "take (length d) (c # cs) = d")
    case True
    then show ?thesis
      by (cases i) (auto simp: first_occ_def)
  next
    case False
    show ?thesis
    proof (cases i)
      case 0
      with False show ?thesis by (simp add: first_occ_def)
    next
      case (Suc k)
      have "first_occ d (c # cs) (Suc k) \<longleftrightarrow> first_occ d cs k"
        using False by (auto simp: first_occ_def less_Suc_eq_0_disj)
      with False Suc Cons.IH [of k] show ?thesis by auto
    qed
  qed
qed

lemma sublist_iff_take_drop: "sublist d s \<longleftrightarrow> (\<exists>j. take (length d) (drop j s) = d)"
proof
  assume "sublist d s"
  then obtain ps ss where "s = ps @ d @ ss" by (auto simp: sublist_def)
  then have "take (length d) (drop (length ps) s) = d" by simp
  then show "\<exists>j. take (length d) (drop j s) = d" ..
next
  assume "\<exists>j. take (length d) (drop j s) = d"
  then obtain j where j: "take (length d) (drop j s) = d" ..
  have "s = take j s @ drop j s" by simp
  also have "drop j s = take (length d) (drop j s) @ drop (length d) (drop j s)"
    by (simp only: append_take_drop_id)
  finally have "s = take j s @ d @ drop (length d) (drop j s)" using j by simp
  then show "sublist d s" unfolding sublist_def by blast
qed

lemma strstr_None_iff: "strstr s d = None \<longleftrightarrow> \<not> sublist d s"
proof (induction s)
  case Nil
  show ?case by (auto simp: sublist_iff_take_drop)
next
  case (Cons c cs)
  have "(\<exists>j. take (length d) (drop j (c # cs)) = d) \<longleftrightarrow>
        take (length d) (c # cs) = d \<or> (\<exists>j. take (length d) (drop j cs) = d)"
    (is "?L \<longleftrightarrow> ?R")
  proof
    assume ?L
    then obtain j where j: "take (length d) (drop j (c # cs)) = d" ..
    show ?R
    proof (cases j)
      case 0 with j show ?thesis by simp
    next
      case (Suc k) with j show ?thesis by auto
    qed
  next
    assume ?R
    then show ?L
    proof
      assume "take (length d) (c # cs) = d"
      then have "take (length d) (drop 0 (c # cs)) = d" by simp
      then show ?L by blast
    next
      assume "\<exists>j. take (length d) (drop j cs) = d"
      then obtain j where "take (length d) (drop (Suc j) (c # cs)) = d" by auto
      then show ?L by blast
    qed
  qed
  with Cons.IH show ?case by (simp add: sublist_iff_take_drop)
qed

lemma first_occ_unique: "first_occ d s i \<Longrightarrow> first_occ d s j \<Longrightarrow> i = j"
  by (metis strstr_Some_iff option.inject)

lemma sublist_first_occ: "sublist d s \<Longrightarrow> \<exists>i. first_occ d s i"
  by (metis strstr_None_iff strstr_Some_iff not_None_eq)

lemma first_occ_sublist: "first_occ d s i \<Longrightarrow> sublist d s"
  by (metis strstr_None_iff strstr_Some_iff option.distinct(1))

lemma cstr_nonneg: "cstr mem p = Some s \<Longrightarrow> 0 \<le> p"
  by (simp add: cstr_def split: if_splits)

lemma takeWhile_drop_prefix:
  "k \<le> length (takeWhile P xs) \<Longrightarrow> takeWhile P (drop k xs) = drop k (takeWhile P xs)"
proof (induction xs arbitrary: k)
  case Nil
  then show ?case by simp
next
  case (Cons x xs)
  then show ?case by (cases k) (auto split: if_splits)
qed

lemma stop_in_drop_prefix:
  "k \<le> length (takeWhile P xs) \<Longrightarrow> x \<in> set xs \<Longrightarrow> \<not> P x \<Longrightarrow> x \<in> set (drop k xs)"
proof (induction xs arbitrary: k)
  case Nil
  then show ?case by simp
next
  case (Cons y ys)
  then show ?case by (cases k) (auto split: if_splits)
qed

lemma cstr_advance:
  assumes "cstr mem p = Some s" and "k \<le> length s"
  shows "cstr mem (p + int k) = Some (drop k s)"
proof -
  let ?m = "drop (nat p) mem"
  from assms(1) have p: "0 \<le> p" and nul: "NUL \<in> set ?m"
    and s: "s = takeWhile (\<lambda>c. c \<noteq> NUL) ?m"
    by (auto simp: cstr_def split: if_splits)
  from p have d: "drop (nat (p + int k)) mem = drop k ?m"
    by (simp add: nat_add_distrib add.commute)
  from assms(2) s have k: "k \<le> length (takeWhile (\<lambda>c. c \<noteq> NUL) ?m)" by simp
  have "NUL \<in> set (drop k ?m)"
    using stop_in_drop_prefix [OF k nul] by simp
  moreover have "takeWhile (\<lambda>c. c \<noteq> NUL) (drop k ?m) = drop k s"
    using takeWhile_drop_prefix [OF k] s by simp
  ultimately show ?thesis
    using p d by (simp add: cstr_def)
qed

lemma get_prefix_found:
  assumes "cstr mem p = Some s" and "first_occ delim s i" and "alloc (i + 1)"
  shows "get_prefix alloc mem (Some p) delim out_prefix =
           Inr (Some (p + int i + int (length delim)), StrPtr (take i s))"
  using assms by (simp add: get_prefix_def strstr_Some_iff [symmetric])

lemma get_prefix_missing:
  assumes "cstr mem p = Some s" and "\<not> sublist delim s"
  shows "get_prefix alloc mem (Some p) delim out_prefix = Inr (None, out_prefix)"
  using assms by (simp add: get_prefix_def strstr_None_iff [symmetric])

lemma first_occ_le_length:
  assumes "first_occ d s i" and "d \<noteq> []"
  shows "i + length d \<le> length s"
proof -
  from assms(1) have "length (take (length d) (drop i s)) = length d"
    by (simp add: first_occ_def)
  then have "min (length s - i) (length d) = length d" by simp
  with assms(2) show ?thesis by (cases "length s - i") auto
qed

lemma prefix_first_occ: "prefix d s \<Longrightarrow> first_occ d s 0"
  by (auto simp: first_occ_def prefix_def)

lemmas chars = NUL_def CR_def LF_def CRLF_def head_body_sep_def

lemma strstr_Nil_needle [simp]: "strstr s [] = Some 0"
  by (cases s) simp_all

subsection \<open>The 32-bit sizes of the splitter\<close>

lemma unat32: "k < 2 ^ 32 \<Longrightarrow> unat (word_of_nat k :: 32 word) = k"
  by (simp add: unat_of_nat take_bit_nat_eq_self)

lemma sint32: "k < 2 ^ 31 \<Longrightarrow> sint (word_of_nat k :: 32 word) = int k"
  by (simp add: signed_of_nat signed_take_bit_int_eq_self)

lemma word32_nonzero: "0 < k \<Longrightarrow> k < 2 ^ 32 \<Longrightarrow> (word_of_nat k :: 32 word) \<noteq> 0"
  by (metis unat32 unat_0 less_numeral_extra(3))

lemma body_size_word:
  "pos + 4 \<le> n \<Longrightarrow>
     (word_of_int (int n) :: 32 word) - word_of_nat (pos + 2) - 2 = word_of_nat (n - pos - 4)"
  by simp

lemma first_occ_take:
  assumes "i + length d \<le> m"
  shows "first_occ d (take m s) i \<longleftrightarrow> first_occ d s i"
proof -
  have "take (length d) (drop j (take m s)) = take (length d) (drop j s)" if "j \<le> i" for j
  proof -
    from that assms have "length d \<le> m - j" by simp
    then show ?thesis by (simp add: drop_take min_absorb1)
  qed
  then show ?thesis by (simp add: first_occ_def)
qed

lemma cstr_take_prefix:
  assumes "cstr mem (int p) = Some s" and "NUL \<notin> set (take k (drop p mem))"
  shows "take k s = take k (drop p mem)"
proof -
  from assms(1) have s: "s = takeWhile (\<lambda>c. c \<noteq> NUL) (drop p mem)"
    by (simp add: cstr_def split: if_splits)
  have "take k (takeWhile (\<lambda>c. c \<noteq> NUL) xs) = take k xs" if "NUL \<notin> set (take k xs)" for xs
    using that
  proof (induction xs arbitrary: k)
    case Nil
    then show ?case by simp
  next
    case (Cons x xs)
    then show ?case by (cases k) auto
  qed
  with assms(2) s show ?thesis by simp
qed

lemma cstr_within_declared:
  assumes "NUL \<in> set (take (Suc n) xs)"
  shows "takeWhile (\<lambda>c. c \<noteq> NUL) xs = takeWhile (\<lambda>c. c \<noteq> NUL) (take n xs)"
  using assms
proof (induction xs arbitrary: n)
  case Nil
  then show ?case by simp
next
  case (Cons x xs)
  show ?case
  proof (cases "x = NUL")
    case True
    then show ?thesis by (cases n) simp_all
  next
    case False
    with Cons.prems obtain m where "n = Suc m"
      by (cases n) auto
    with False Cons show ?thesis by simp
  qed
qed

lemma parse_body_head_unfold:
  assumes "cstr mem p = Some s" and "strstr s head_body_sep = Some pos"
  shows "parse_body_head alloc mem (Some p) n outs =
     (let sz = (word_of_nat (pos + 2) :: 32 word); bsz = (word_of_int n :: 32 word) - sz - 2 in
      if \<not> alloc (unat (sz + 1)) then Inr (outs\<lparr>out_head := NullPtr\<rparr>)
      else if sz + 1 = 0 then Inl OutOfBounds
      else
        (case memcpy mem (nat p) (unat sz) of
           Inl e \<Rightarrow> Inl e
         | Inr head \<Rightarrow>
             if \<not> alloc (unat (bsz + 1))
             then Inr (outs\<lparr>out_head := StrPtr head, out_head_len := sint sz,
                            out_body := NullPtr\<rparr>)
             else if bsz + 1 = 0 then Inl OutOfBounds
             else
               (case memcpy mem (nat p + pos + 4) (unat bsz) of
                  Inl e \<Rightarrow> Inl e
                | Inr body \<Rightarrow>
                    Inr (outs\<lparr>out_head := StrPtr head, out_head_len := sint sz,
                              out_body := StrPtr body, out_body_len := sint bsz\<rparr>))))"
  unfolding parse_body_head_def Let_def
  by (simp only: assms option.case)

lemma parse_body_head_found:
  assumes c: "cstr mem (int p) = Some s"
    and f: "first_occ head_body_sep s pos"
    and n: "pos + 4 \<le> n" "n < 2 ^ 31" "p + n \<le> length mem"
  shows "parse_body_head alloc mem (Some (int p)) (int n) outs =
           (if \<not> alloc (pos + 3) then Inr (outs\<lparr>out_head := NullPtr\<rparr>)
            else if \<not> alloc (n - pos - 3)
              then Inr (outs\<lparr>out_head := StrPtr (take (pos + 2) (drop p mem)),
                             out_head_len := int pos + 2, out_body := NullPtr\<rparr>)
              else Inr (outs\<lparr>out_head := StrPtr (take (pos + 2) (drop p mem)),
                             out_head_len := int pos + 2,
                             out_body := StrPtr (take (n - pos - 4) (drop (p + pos + 4) mem)),
                             out_body_len := int n - int pos - 4\<rparr>))"
proof -
  define sz where "sz = (word_of_nat (pos + 2) :: 32 word)"
  define bsz where "bsz = (word_of_int (int n) :: 32 word) - sz - 2"
  define hl where "hl = pos + 2"
  define bl where "bl = n - pos - 4"
  from n have hl: "hl < 2 ^ 31" "Suc hl < 2 ^ 32" and bl: "bl < 2 ^ 31" "Suc bl < 2 ^ 32"
    by (simp_all add: hl_def bl_def)
  have sz: "sz = word_of_nat hl" by (simp add: sz_def hl_def)
  from n(1) have bsz: "bsz = word_of_nat bl"
    unfolding bsz_def sz_def bl_def by (rule body_size_word)
  have sz1: "sz + 1 = word_of_nat (Suc hl)" by (simp add: sz)
  have bsz1: "bsz + 1 = word_of_nat (Suc bl)" by (simp add: bsz)
  from hl have u1: "unat sz = hl" unfolding sz by (intro unat32) simp
  from hl(1) have s1: "sint sz = int hl" unfolding sz by (rule sint32)
  from hl(2) have u1': "unat (sz + 1) = Suc hl" unfolding sz1 by (rule unat32)
  from hl have z1: "sz + 1 \<noteq> 0" unfolding sz1 by (intro word32_nonzero) simp_all
  from bl have u2: "unat bsz = bl" unfolding bsz by (intro unat32) simp
  from bl(1) have s2: "sint bsz = int bl" unfolding bsz by (rule sint32)
  from bl(2) have u2': "unat (bsz + 1) = Suc bl" unfolding bsz1 by (rule unat32)
  from bl have z2: "bsz + 1 \<noteq> 0" unfolding bsz1 by (intro word32_nonzero) simp_all
  from n have m1: "memcpy mem p hl = Inr (take hl (drop p mem))"
    by (simp add: memcpy_def hl_def)
  from n have m2: "memcpy mem (p + pos + 4) bl = Inr (take bl (drop (p + pos + 4) mem))"
    by (simp add: memcpy_def bl_def)
  from f have st: "strstr s head_body_sep = Some pos"
    by (simp add: strstr_Some_iff)
  have a1: "Suc hl = pos + 3" by (simp add: hl_def)
  from n have a2: "Suc bl = n - pos - 3" by (simp add: bl_def)
  from n have a3: "int bl = int n - int pos - 4" by (simp add: bl_def)
  have "parse_body_head alloc mem (Some (int p)) (int n) outs =
           (if \<not> alloc (Suc hl) then Inr (outs\<lparr>out_head := NullPtr\<rparr>)
            else if \<not> alloc (Suc bl)
              then Inr (outs\<lparr>out_head := StrPtr (take hl (drop p mem)),
                             out_head_len := int hl, out_body := NullPtr\<rparr>)
              else Inr (outs\<lparr>out_head := StrPtr (take hl (drop p mem)),
                             out_head_len := int hl,
                             out_body := StrPtr (take bl (drop (p + pos + 4) mem)),
                             out_body_len := int bl\<rparr>))"
    unfolding parse_body_head_unfold [OF c st] Let_def
    unfolding sz_def [symmetric]
    unfolding bsz_def [symmetric]
    by (simp add: u1 s1 u1' z1 u2 s2 u2' z2 m1 m2)
  then show ?thesis
    unfolding a1 a2 a3 by (simp add: hl_def bl_def)
qed

lemma sep_length [simp]: "length head_body_sep = 4"
  by (simp add: chars)

lemma sep_no_NUL: "NUL \<notin> set head_body_sep"
  by (simp add: chars)

lemma sublist_takeWhile: "sublist d (takeWhile P xs) \<Longrightarrow> sublist d xs"
proof -
  assume "sublist d (takeWhile P xs)"
  then obtain ps ss where "takeWhile P xs = ps @ d @ ss" by (auto simp: sublist_def)
  then have "xs = ps @ d @ (ss @ dropWhile P xs)"
    by (metis append.assoc takeWhile_dropWhile_id)
  then show ?thesis unfolding sublist_def by blast
qed

lemma parse_body_head_closed:
  assumes len: "p + n \<le> length mem" and n: "n < 2 ^ 31"
    and t: "NUL \<in> set (take (Suc n) (drop p mem))"
  shows "parse_body_head alloc mem (Some (int p)) (int n) outs =
     (case strstr (takeWhile (\<lambda>c. c \<noteq> NUL) (take n (drop p mem))) head_body_sep of
        None \<Rightarrow> Inr outs
      | Some pos \<Rightarrow>
          if \<not> alloc (pos + 3) then Inr (outs\<lparr>out_head := NullPtr\<rparr>)
          else if \<not> alloc (n - pos - 3)
            then Inr (outs\<lparr>out_head := StrPtr (take (pos + 2) (take n (drop p mem))),
                           out_head_len := int pos + 2, out_body := NullPtr\<rparr>)
            else Inr (outs\<lparr>out_head := StrPtr (take (pos + 2) (take n (drop p mem))),
                           out_head_len := int pos + 2,
                           out_body := StrPtr (drop (pos + 4) (take n (drop p mem))),
                           out_body_len := int n - int pos - 4\<rparr>))"
proof -
  let ?b = "drop p mem"
  let ?s = "takeWhile (\<lambda>c. c \<noteq> NUL) (take n ?b)"
  from t have "NUL \<in> set ?b" by (meson in_set_takeD)
  then have c: "cstr mem (int p) = Some ?s"
    using cstr_within_declared [OF t] by (simp add: cstr_def)
  show ?thesis
  proof (cases "strstr ?s head_body_sep")
    case None
    with c show ?thesis by (simp add: parse_body_head_def)
  next
    case (Some pos)
    then have f: "first_occ head_body_sep ?s pos" by (simp add: strstr_Some_iff)
    then have "pos + length head_body_sep \<le> length ?s"
      by (rule first_occ_le_length) (simp add: chars)
    moreover have "length ?s \<le> length (take n ?b)" by (rule length_takeWhile_le)
    ultimately have pos: "pos + 4 \<le> n" by simp
    show ?thesis
      using pos
      by (simp add: parse_body_head_found [OF c f pos n len] Some drop_take min_absorb1 ac_simps)
  qed
qed

lemma first_occ_in_cstr:
  assumes c: "cstr mem (int p) = Some s"
    and f: "first_occ d (take n (drop p mem)) pos"
    and n: "pos + length d \<le> n"
    and z: "NUL \<notin> set (take pos (drop p mem))" "NUL \<notin> set d"
  shows "first_occ d s pos"
proof -
  let ?b = "drop p mem"
  let ?m = "pos + length d"
  from f n have fb: "first_occ d ?b pos" by (simp add: first_occ_take)
  then have "take (length d) (drop pos ?b) = d" by (simp add: first_occ_def)
  then have "take ?m ?b = take pos ?b @ d" by (simp add: take_add)
  with z have "NUL \<notin> set (take ?m ?b)" by simp
  with c have "take ?m s = take ?m ?b" by (rule cstr_take_prefix)
  moreover from fb have "first_occ d (take ?m ?b) pos" by (simp add: first_occ_take)
  ultimately have "first_occ d (take ?m s) pos" by simp
  then show ?thesis by (simp add: first_occ_take)
qed

subsection \<open>Chains of tokenizer calls\<close>

lemma get_prefix_step:
  assumes c: "cstr mem p = Some s" and f: "first_occ d s i" and d: "d \<noteq> []"
    and a: "\<forall>k. alloc k"
    and q: "q = p + int i + int (length d)" and r: "r = drop (i + length d) s"
  shows "get_prefix alloc mem (Some p) d out_prefix = Inr (Some q, StrPtr (take i s))"
    and "cstr mem q = Some r"
proof -
  from a have "alloc (i + 1)" ..
  from get_prefix_found [where alloc = alloc, OF c f this] q
  show "get_prefix alloc mem (Some p) d out_prefix = Inr (Some q, StrPtr (take i s))"
    by simp
  from f d have "i + length d \<le> length s" by (rule first_occ_le_length)
  with c have "cstr mem (p + int (i + length d)) = Some (drop (i + length d) s)"
    by (rule cstr_advance)
  with q r show "cstr mem q = Some r" by (simp add: add.assoc)
qed

lemma sp_length [simp]: "length '' '' = 1" and crlf_length [simp]: "length CRLF = 2"
  by (simp_all add: chars)

lemma parse_request_line_no_method:
  assumes "cstr mem p = Some s" and "\<not> sublist '' '' s"
  shows "parse_request_line alloc mem (Some p) (m, u, v) = Inr (- 1, m, u, v)"
  by (simp add: parse_request_line_def get_prefix_missing [OF assms])

lemma parse_request_line_no_url:
  assumes c: "cstr mem p = Some s" and a: "\<forall>k. alloc k"
    and i: "first_occ '' '' s i" and n: "\<not> sublist '' '' (drop (i + 1) s)"
  shows "parse_request_line alloc mem (Some p) (m, u, v) = Inr (- 1, StrPtr (take i s), u, v)"
proof -
  have g1: "get_prefix alloc mem (Some p) '' '' m = Inr (Some (p + int i + 1), StrPtr (take i s))"
    by (rule get_prefix_step(1) [OF c i _ a]) simp_all
  have c1: "cstr mem (p + int i + 1) = Some (drop (i + 1) s)"
    by (rule get_prefix_step(2) [OF c i _ a]) simp_all
  show ?thesis
    unfolding parse_request_line_def
    by (simp only: prod.case sum.case g1 get_prefix_missing [OF c1 n]) simp
qed

lemma parse_request_line_no_version:
  assumes c: "cstr mem p = Some s" and a: "\<forall>k. alloc k"
    and i: "first_occ '' '' s i" and j: "first_occ '' '' (drop (i + 1) s) j"
    and n: "\<not> sublist CRLF (drop (i + j + 2) s)"
  shows "parse_request_line alloc mem (Some p) (m, u, v) =
           Inr (- 1, StrPtr (take i s), StrPtr (take j (drop (i + 1) s)), v)"
proof -
  have g1: "get_prefix alloc mem (Some p) '' '' m = Inr (Some (p + int i + 1), StrPtr (take i s))"
    by (rule get_prefix_step(1) [OF c i _ a]) simp_all
  have c1: "cstr mem (p + int i + 1) = Some (drop (i + 1) s)"
    by (rule get_prefix_step(2) [OF c i _ a]) simp_all
  have g2: "get_prefix alloc mem (Some (p + int i + 1)) '' '' u =
      Inr (Some (p + int i + 1 + int j + 1), StrPtr (take j (drop (i + 1) s)))"
    by (rule get_prefix_step(1) [OF c1 j _ a]) simp_all
  have c2: "cstr mem (p + int i + 1 + int j + 1) = Some (drop (i + j + 2) s)"
    by (rule get_prefix_step(2) [OF c1 j _ a]) (simp_all add: ac_simps)
  show ?thesis
    unfolding parse_request_line_def
    by (simp only: prod.case sum.case g1 g2 get_prefix_missing [OF c2 n]) simp
qed

lemma parse_request_line_valid:
  assumes c: "cstr mem p = Some s" and a: "\<forall>k. alloc k"
    and i: "first_occ '' '' s i" and j: "first_occ '' '' (drop (i + 1) s) j"
    and k: "first_occ CRLF (drop (i + j + 2) s) k"
  shows "parse_request_line alloc mem (Some p) (m, u, v) =
           Inr (int (i + j + k + 4), StrPtr (take i s), StrPtr (take j (drop (i + 1) s)),
                StrPtr (take k (drop (i + j + 2) s)))"
proof -
  have g1: "get_prefix alloc mem (Some p) '' '' m = Inr (Some (p + int i + 1), StrPtr (take i s))"
    by (rule get_prefix_step(1) [OF c i _ a]) simp_all
  have c1: "cstr mem (p + int i + 1) = Some (drop (i + 1) s)"
    by (rule get_prefix_step(2) [OF c i _ a]) simp_all
  have g2: "get_prefix alloc mem (Some (p + int i + 1)) '' '' u =
      Inr (Some (p + int i + 1 + int j + 1), StrPtr (take j (drop (i + 1) s)))"
    by (rule get_prefix_step(1) [OF c1 j _ a]) simp_all
  have c2: "cstr mem (p + int i + 1 + int j + 1) = Some (drop (i + j + 2) s)"
    by (rule get_prefix_step(2) [OF c1 j _ a]) (simp_all add: ac_simps)
  have g3: "get_prefix alloc mem (Some (p + int i + 1 + int j + 1)) CRLF v =
      Inr (Some (p + int i + 1 + int j + 1 + int k + 2), StrPtr (take k (drop (i + j + 2) s)))"
    by (rule get_prefix_step(1) [OF c2 k _ a]) (simp_all add: chars)
  show ?thesis
    unfolding parse_request_line_def
    by (simp only: prod.case sum.case g1 g2 g3) (simp add: ptr_diff_def)
qed

lemma always_alloc_all: "\<forall>k. always_alloc k"
  by (simp add: always_alloc_def)

lemma cstr_terminated:
  "NUL \<notin> set s \<Longrightarrow> cstr (s @ [NUL]) 0 = Some s"
  by (induction s) (auto simp: cstr_def)

subsection \<open>Decoding integers\<close>

lemma decimal_Nil [simp]: "decimal [] = 0"
  by (simp add: decimal_def)

lemma decimal_Cons [simp]: "decimal (c # cs) = (of_char c - 48) * 10 ^ length cs + decimal cs"
  by (simp add: decimal_def sum.lessThan_Suc_shift del: sum.lessThan_Suc)

lemma isdigit_value: "isdigit c \<Longrightarrow> 48 \<le> (of_char c :: int)"
proof -
  assume "isdigit c"
  then have "int 48 \<le> int (of_char c)" unfolding isdigit_def by linarith
  then show ?thesis by (simp add: of_nat_of_char)
qed

lemma decimal_nonneg: "\<forall>c\<in>set ds. isdigit c \<Longrightarrow> 0 \<le> decimal ds"
proof (induction ds)
  case Nil
  show ?case by simp
next
  case (Cons c cs)
  then have "48 \<le> (of_char c :: int)" and "0 \<le> decimal cs"
    by (simp_all add: isdigit_value)
  then have "0 \<le> (of_char c - 48) * 10 ^ length cs + decimal cs"
    by (intro add_nonneg_nonneg mult_nonneg_nonneg) simp_all
  then show ?case by simp
qed

lemma digits_value_decimal:
  "\<forall>c\<in>set ds. isdigit c \<Longrightarrow> digits_value acc ds = acc * 10 ^ length ds + decimal ds"
  by (induction ds arbitrary: acc) (simp_all add: algebra_simps)

lemma isdigit_not_space: "isdigit c \<Longrightarrow> \<not> isspace c"
  by (auto simp: isdigit_def isspace_def)

lemma isdigit_not_sign: "isdigit c \<Longrightarrow> c \<noteq> CHR ''-'' \<and> c \<noteq> CHR ''+''"
  by (auto simp: isdigit_def)

lemma atoi_digits:
  assumes "ds \<noteq> []" and "\<forall>c\<in>set ds. isdigit c" and "decimal ds < 2 ^ 31"
  shows "atoi ds = Inr (decimal ds)"
proof -
  from assms(1) obtain c cs where ds: "ds = c # cs" by (cases ds) auto
  with assms(2) have c: "isdigit c" by simp
  from c have "dropWhile isspace ds = ds" by (simp add: ds isdigit_not_space)
  moreover from c have "skip_sign ds = (False, ds)"
    using isdigit_not_sign [of c] by (simp add: skip_sign_def ds)
  moreover have "digits_value 0 ds = decimal ds"
    using digits_value_decimal [OF assms(2), of 0] by simp
  moreover have "0 \<le> decimal ds" using assms(2) by (rule decimal_nonneg)
  ultimately show ?thesis using assms(3) by (simp add: atoi_def)
qed

lemma atoi_non_numeric:
  assumes "non_numeric t"
  shows "atoi t = Inr 0"
proof -
  obtain neg ds where s: "skip_sign (dropWhile isspace t) = (neg, ds)" by force
  with assms have "digits_value 0 ds = 0"
    by (cases ds) (simp_all add: non_numeric_def)
  with s show ?thesis by (simp add: atoi_def)
qed

lemma parse_header_line_no_name:
  assumes "cstr mem p = Some s" and "\<not> sublist '': '' s"
  shows "parse_header_line alloc mem (Some p) (nm, v) = Inr (- 1, nm, v)"
  by (simp add: parse_header_line_def get_prefix_missing [OF assms])


lemma parse_host_field_no_colon:
  assumes c: "cstr mem h = Some s" and a: "\<forall>k. alloc k" and n: "\<not> sublist '':'' s"
  shows "parse_host_field alloc mem (Some h) outs = Inr (outs\<lparr>out_hostname := StrPtr s\<rparr>)"
proof -
  from a have "alloc (length s + 1)" ..
  then show ?thesis
    unfolding parse_host_field_def
    by (simp only: get_prefix_missing [OF c n] sum.case prod.case option.case c) simp
qed

lemma parse_host_field_colon:
  assumes c: "cstr mem h = Some s" and a: "\<forall>k. alloc k" and i: "first_occ '':'' s i"
  shows "parse_host_field alloc mem (Some h) outs =
           (if i + 1 < length s
            then (case atoi (drop (i + 1) s) of
                    Inl e \<Rightarrow> Inl e
                  | Inr port \<Rightarrow> Inr (outs\<lparr>out_hostname := StrPtr (take i s), out_port := port\<rparr>))
            else Inr (outs\<lparr>out_hostname := StrPtr (take i s)\<rparr>))"
proof -
  have g: "get_prefix alloc mem (Some h) '':'' (out_hostname outs) =
      Inr (Some (h + int i + 1), StrPtr (take i s))"
    by (rule get_prefix_step(1) [OF c i _ a]) simp_all
  have c1: "cstr mem (h + int i + 1) = Some (drop (i + 1) s)"
    by (rule get_prefix_step(2) [OF c i _ a]) simp_all
  have lt: "h + int i + 1 < h + int (length s) \<longleftrightarrow> i + 1 < length s" by linarith
  show ?thesis
    unfolding parse_host_field_def
    by (simp only: g sum.case prod.case option.case c c1 lt)
qed

subsection \<open>The header loops on concrete heads\<close>

lemmas eval_defs = parse_header_line_def get_prefix_def cstr_def always_alloc_def ptr_diff_def
  streq_def chars

lemma looping_request_steps:
  "request_header_step always_alloc (looping_request @ [NUL]) 16 h = Inr (22, h)"
  "request_header_step always_alloc (looping_request @ [NUL]) 17 h = Inr (22, h)"
  "request_header_step always_alloc (looping_request @ [NUL]) 18 h = Inr (17, h)"
  "request_header_step always_alloc (looping_request @ [NUL]) 19 h = Inr (18, h)"
  "request_header_step always_alloc (looping_request @ [NUL]) 20 h = Inr (19, h)"
  "request_header_step always_alloc (looping_request @ [NUL]) 21 h = Inr (20, h)"
  "request_header_step always_alloc (looping_request @ [NUL]) 22 h = Inr (21, h)"
  by (simp_all add: request_header_step_def looping_request_def eval_defs)

lemma looping_request_cycle:
  assumes "17 \<le> st" and "st \<le> 22"
  shows "\<exists>st'. 17 \<le> st' \<and> st' \<le> 22 \<and>
           request_header_step always_alloc (looping_request @ [NUL]) st h = Inr (st', h)"
proof -
  from assms have "st = 17 \<or> st = 18 \<or> st = 19 \<or> st = 20 \<or> st = 21 \<or> st = 22" by arith
  then show ?thesis by (auto simp: looping_request_steps)
qed

lemma request_loop_stays:
  assumes "request_header_loop alloc mem endp st h = Some y"
  shows "alloc = always_alloc \<and> mem = looping_request @ [NUL] \<and> endp = 27 \<longrightarrow>
           st < 17 \<or> 22 < st"
proof -
  let ?P = "\<lambda>alloc mem endp st (h :: strptr) (y :: error + strptr).
      alloc = always_alloc \<and> mem = looping_request @ [NUL] \<and> endp = (27 :: int) \<longrightarrow>
        st < (17 :: int) \<or> 22 < st"
  show ?thesis
  proof (rule request_header_loop.raw_induct [where P = ?P, OF _ assms])
    fix loop alloc mem endp st h y
    assume IH: "\<And>alloc mem endp st h y. loop alloc mem endp st h = Some y \<Longrightarrow>
        ?P alloc mem endp st h y"
      and body: "(if st < endp
          then (case request_header_step alloc mem st h of
                  Inl e \<Rightarrow> Some (Inl e)
                | Inr (st', host') \<Rightarrow> loop alloc mem endp st' host')
          else Some (Inr h)) = Some y"
    show "?P alloc mem endp st h y"
    proof (intro impI)
      assume eq: "alloc = always_alloc \<and> mem = looping_request @ [NUL] \<and> endp = 27"
      show "st < 17 \<or> 22 < st"
      proof (rule ccontr)
        assume "\<not> (st < 17 \<or> 22 < st)"
        then have st: "17 \<le> st" "st \<le> 22" by simp_all
        from looping_request_cycle [OF st, of h] obtain st' where
          st': "17 \<le> st'" "st' \<le> 22"
          and step: "request_header_step always_alloc (looping_request @ [NUL]) st h =
            Inr (st', h)"
          by blast
        from body st eq step have "loop alloc mem endp st' h = Some y" by simp
        from IH [OF this] eq st' show False by simp
      qed
    qed
  qed
qed

lemma request_loop_diverges:
  "request_header_loop always_alloc (looping_request @ [NUL]) 27 22 h = None"
proof (cases "request_header_loop always_alloc (looping_request @ [NUL]) 27 22 h")
  case None
  then show ?thesis .
next
  case (Some y)
  from request_loop_stays [OF this] show ?thesis by simp
qed

lemma looping_response_steps:
  "response_header_step always_alloc (looping_response @ [NUL]) 17 outs = Inr (23, outs)"
  "response_header_step always_alloc (looping_response @ [NUL]) 18 outs = Inr (23, outs)"
  "response_header_step always_alloc (looping_response @ [NUL]) 19 outs = Inr (18, outs)"
  "response_header_step always_alloc (looping_response @ [NUL]) 20 outs = Inr (19, outs)"
  "response_header_step always_alloc (looping_response @ [NUL]) 21 outs = Inr (20, outs)"
  "response_header_step always_alloc (looping_response @ [NUL]) 22 outs = Inr (21, outs)"
  "response_header_step always_alloc (looping_response @ [NUL]) 23 outs = Inr (22, outs)"
  by (simp_all add: response_header_step_def looping_response_def eval_defs split: prod.split)

lemma looping_response_cycle:
  assumes "18 \<le> st" and "st \<le> 23"
  shows "\<exists>st'. 18 \<le> st' \<and> st' \<le> 23 \<and>
           response_header_step always_alloc (looping_response @ [NUL]) st outs = Inr (st', outs)"
proof -
  from assms have "st = 18 \<or> st = 19 \<or> st = 20 \<or> st = 21 \<or> st = 22 \<or> st = 23" by arith
  then show ?thesis by (auto simp: looping_response_steps)
qed

lemma response_loop_stays:
  assumes "response_header_loop alloc mem endp st outs = Some y"
  shows "alloc = always_alloc \<and> mem = looping_response @ [NUL] \<and> endp = 28 \<longrightarrow>
           st < 18 \<or> 23 < st"
proof -
  let ?P = "\<lambda>alloc mem endp st (outs :: int \<times> strptr) (y :: error + int \<times> strptr).
      alloc = always_alloc \<and> mem = looping_response @ [NUL] \<and> endp = (28 :: int) \<longrightarrow>
        st < (18 :: int) \<or> 23 < st"
  show ?thesis
  proof (rule response_header_loop.raw_induct [where P = ?P, OF _ assms])
    fix loop alloc mem endp st outs y
    assume IH: "\<And>alloc mem endp st outs y. loop alloc mem endp st outs = Some y \<Longrightarrow>
        ?P alloc mem endp st outs y"
      and body: "(if st < endp
          then (case response_header_step alloc mem st outs of
                  Inl e \<Rightarrow> Some (Inl e)
                | Inr (st', outs') \<Rightarrow> loop alloc mem endp st' outs')
          else Some (Inr outs)) = Some y"
    show "?P alloc mem endp st outs y"
    proof (intro impI)
      assume eq: "alloc = always_alloc \<and> mem = looping_response @ [NUL] \<and> endp = 28"
      show "st < 18 \<or> 23 < st"
      proof (rule ccontr)
        assume "\<not> (st < 18 \<or> 23 < st)"
        then have st: "18 \<le> st" "st \<le> 23" by simp_all
        from looping_response_cycle [OF st, of outs] obtain st' where
          st': "18 \<le> st'" "st' \<le> 23"
          and step: "response_header_step always_alloc (looping_response @ [NUL]) st outs =
            Inr (st', outs)"
          by blast
        from body st eq step have "loop alloc mem endp st' outs = Some y" by simp
        from IH [OF this] eq st' show False by simp
      qed
    qed
  qed
qed

lemma response_loop_diverges:
  "response_header_loop always_alloc (looping_response @ [NUL]) 28 23 outs = None"
proof (cases "response_header_loop always_alloc (looping_response @ [NUL]) 28 23 outs")
  case None
  then show ?thesis .
next
  case (Some y)
  from response_loop_stays [OF this] show ?thesis by simp
qed

lemma parse_request_head_diverges:
  "parse_request_head always_alloc (looping_request @ [NUL]) (Some 0) no_request = None"
proof -
  have c: "cstr (looping_request @ [NUL]) 0 = Some looping_request"
    by (rule cstr_terminated) (simp add: looping_request_def chars)
  have l: "length looping_request = 27" by (simp add: looping_request_def chars)
  have r: "parse_request_line always_alloc (looping_request @ [NUL]) (Some 0)
      (NullPtr, NullPtr, NullPtr) = Inr (16, StrPtr ''GET'', StrPtr ''/'', StrPtr ''HTTP/1.1'')"
    by (simp add: parse_request_line_def looping_request_def eval_defs)
  have "request_header_loop always_alloc (looping_request @ [NUL]) 27 16 NullPtr = None"
    by (subst request_header_loop.simps)
      (simp add: looping_request_steps request_loop_diverges)
  then show ?thesis
    by (simp add: parse_request_head_def c l r no_request_def)
qed

lemma parse_response_head_diverges:
  "parse_response_head always_alloc (looping_response @ [NUL]) (Some 0) no_response = None"
proof -
  have c: "cstr (looping_response @ [NUL]) 0 = Some looping_response"
    by (rule cstr_terminated) (simp add: looping_response_def chars)
  have l: "length looping_response = 28" by (simp add: looping_response_def chars)
  have r: "parse_status_line always_alloc (looping_response @ [NUL]) (Some 0)
      (NullPtr, 0, NullPtr) = Inr (17, StrPtr ''HTTP/1.1'', 200, StrPtr ''OK'')"
    by (simp add: parse_status_line_def looping_response_def eval_defs atoi_def skip_sign_def
        isspace_def isdigit_def)
  have "response_header_loop always_alloc (looping_response @ [NUL]) 28 17 (- 1, NullPtr) = None"
    by (subst response_header_loop.simps)
      (simp add: looping_response_steps response_loop_diverges)
  then show ?thesis
    by (simp add: parse_response_head_def c l r no_response_def)
qed

lemma parse_request_head_example:
  "parse_request_head always_alloc (request_line_only @ [NUL]) (Some 0) no_request =
     Some (Inr \<lparr>req_method = StrPtr ''GET'', req_url = StrPtr ''/x'',
                req_version = StrPtr ''HTTP/1.1'', req_host = StrPtr ''a.com''\<rparr>)"
proof -
  have c: "cstr (request_line_only @ [NUL]) 0 = Some request_line_only"
    by (rule cstr_terminated) (simp add: request_line_only_def chars)
  have l: "length request_line_only = 30" by (simp add: request_line_only_def chars)
  have r: "parse_request_line always_alloc (request_line_only @ [NUL]) (Some 0)
      (NullPtr, NullPtr, NullPtr) = Inr (17, StrPtr ''GET'', StrPtr ''/x'', StrPtr ''HTTP/1.1'')"
    by (simp add: parse_request_line_def request_line_only_def eval_defs)
  have s: "request_header_step always_alloc (request_line_only @ [NUL]) 17 NullPtr =
      Inr (30, StrPtr ''a.com'')"
    by (simp add: request_header_step_def request_line_only_def eval_defs)
  have "request_header_loop always_alloc (request_line_only @ [NUL]) 30 17 NullPtr =
      Some (Inr (StrPtr ''a.com''))"
    by (subst request_header_loop.simps, simp add: s)
      (subst request_header_loop.simps, simp)
  then show ?thesis
    by (simp add: parse_request_head_def c l r no_request_def)
qed

section \<open>The tokenizer splits at the first delimiter\<close>

text \<open>
  C7. For every input string in which the delimiter occurs, \<^verbatim>\<open>get_prefix\<close> returns as
  prefix the substring strictly before the first occurrence of the delimiter (empty
  when the input starts with the delimiter, in particular when the input is the
  delimiter itself: that is a success, not a failure), and returns the cursor
  immediately after the last byte of the delimiter. Allocation is taken to succeed.
\<close>

theorem get_prefix_splits_at_first_delimiter:
  assumes "cstr mem p = Some s" and "sublist delim s" and "\<forall>k. alloc k"
  shows "\<exists>i. first_occ delim s i \<and>
             get_prefix alloc mem (Some p) delim out_prefix =
               Inr (Some (p + int i + int (length delim)), StrPtr (take i s)) \<and>
             (prefix delim s \<longrightarrow> i = 0 \<and> take i s = [])"
proof -
  from assms(2) obtain i where i: "first_occ delim s i"
    using sublist_first_occ by blast
  from assms(3) have "alloc (i + 1)" ..
  with assms(1) i have "get_prefix alloc mem (Some p) delim out_prefix =
      Inr (Some (p + int i + int (length delim)), StrPtr (take i s))"
    by (rule get_prefix_found)
  moreover have "prefix delim s \<longrightarrow> i = 0 \<and> take i s = []"
    using i prefix_first_occ first_occ_unique by fastforce
  ultimately show ?thesis using i by blast
qed

theorem get_prefix_splits_at_first_delimiter_witness:
  "get_prefix always_alloc (CRLF @ [NUL]) (Some 0) CRLF NullPtr = Inr (Some 2, StrPtr [])"
proof -
  have c: "cstr (CRLF @ [NUL]) 0 = Some CRLF"
    by (simp add: cstr_def CRLF_def NUL_def CR_def LF_def)
  have s: "sublist CRLF CRLF" by simp
  have a: "\<forall>k. always_alloc k" by (simp add: always_alloc_def)
  have pr: "prefix CRLF CRLF" by simp
  from get_prefix_splits_at_first_delimiter [OF c s a, of NullPtr] pr
  show ?thesis by (auto simp: CRLF_def)
qed

section \<open>The splitter without a separator\<close>

text \<open>
  C10. For every buffer whose scanned bytes, the C string at \<^verbatim>\<open>buf\<close>, contain no
  \<^verbatim>\<open>"\r\n\r\n"\<close>, \<^verbatim>\<open>parse_body_head\<close> is a no-op: it returns with every output
  parameter (head, head length, body, body length) at its original value, which is how
  it reports the message incomplete. The same holds for a null buffer, where nothing is
  scanned.
\<close>

theorem parse_body_head_no_separator_noop:
  assumes "cstr mem p = Some s" and "\<not> sublist head_body_sep s"
  shows "parse_body_head alloc mem (Some p) n outs = Inr outs \<and>
         parse_body_head alloc mem None n outs = Inr outs"
  using assms by (simp add: parse_body_head_def strstr_None_iff [symmetric])

theorem parse_body_head_no_separator_noop_witness:
  "parse_body_head always_alloc (''ab'' @ [NUL]) (Some 0) 2 no_body_head = Inr no_body_head"
proof -
  have c: "cstr (''ab'' @ [NUL]) 0 = Some ''ab''"
    by (simp add: cstr_def chars)
  have s: "\<not> sublist head_body_sep ''ab''"
    unfolding strstr_None_iff [symmetric] by (simp add: chars)
  from parse_body_head_no_separator_noop [OF c s] show ?thesis by blast
qed

section \<open>The splitter and the declared length\<close>

text \<open>
  C1, as the specification states it, fails: the scan is \<^verbatim>\<open>strstr\<close>, which stops at
  the first \<open>NUL\<close> and not at the declared length. Two memories agree on the two
  declared bytes \<^verbatim>\<open>"ab"\<close>, which hold no separator; where a \<open>NUL\<close> follows them the
  call is a no-op, where \<^verbatim>\<open>"\r\n\r\n"\<close> follows them the separator is found beyond the
  declared length and the body size \<^verbatim>\<open>n - size - 2\<close> wraps around to \<open>2 ^ 32 - 4\<close>:
  the copy of the body leaves the memory when that block is granted, and the head
  \<^verbatim>\<open>"ab\r\n"\<close> is returned without a body when it is refused.
\<close>

theorem parse_body_head_reads_past_length:
  "take 2 (''ab'' @ CRLF @ CRLF @ [NUL]) = take 2 (''ab'' @ [NUL]) \<and>
   \<not> sublist head_body_sep (take 2 (''ab'' @ CRLF @ CRLF @ [NUL])) \<and>
   parse_body_head always_alloc (''ab'' @ [NUL]) (Some 0) 2 no_body_head = Inr no_body_head \<and>
   parse_body_head always_alloc (''ab'' @ CRLF @ CRLF @ [NUL]) (Some 0) 2 no_body_head
     = Inl OutOfBounds \<and>
   parse_body_head bounded_alloc (''ab'' @ [NUL]) (Some 0) 2 no_body_head = Inr no_body_head \<and>
   parse_body_head bounded_alloc (''ab'' @ CRLF @ CRLF @ [NUL]) (Some 0) 2 no_body_head
     = Inr \<lparr>out_head = StrPtr (''ab'' @ CRLF), out_head_len = 4, out_body = NullPtr,
            out_body_len = 0\<rparr>"
proof -
  have 1: "\<not> sublist head_body_sep (take 2 (''ab'' @ CRLF @ CRLF @ [NUL]))"
    unfolding strstr_None_iff [symmetric] by (simp add: chars)
  have 2: "parse_body_head alloc (''ab'' @ [NUL]) (Some 0) 2 no_body_head = Inr no_body_head"
    for alloc
    by (simp add: parse_body_head_def cstr_def chars)
  have c: "cstr (''ab'' @ CRLF @ CRLF @ [NUL]) 0 = Some (''ab'' @ CRLF @ CRLF)"
    by (simp add: cstr_def chars)
  have st: "strstr (''ab'' @ CRLF @ CRLF) head_body_sep = Some 2"
    by (simp add: chars)
  have 3: "parse_body_head always_alloc (''ab'' @ CRLF @ CRLF @ [NUL]) (Some 0) 2 no_body_head
     = Inl OutOfBounds"
    unfolding parse_body_head_unfold [OF c st]
    by (simp add: always_alloc_def memcpy_def chars)
  have 4: "parse_body_head bounded_alloc (''ab'' @ CRLF @ CRLF @ [NUL]) (Some 0) 2 no_body_head
     = Inr \<lparr>out_head = StrPtr (''ab'' @ CRLF), out_head_len = 4, out_body = NullPtr,
            out_body_len = 0\<rparr>"
    unfolding parse_body_head_unfold [OF c st]
    by (simp add: bounded_alloc_def memcpy_def chars no_body_head_def)
  from 1 2 3 4 show ?thesis by simp
qed

text \<open>
  C1, amended. For every buffer of declared length \<open>n\<close> (an \<^verbatim>\<open>int\<close>) that lies in
  memory and holds a \<open>NUL\<close> at some offset up to \<open>n\<close>, as a buffer terminated at its
  declared length does, the result of \<^verbatim>\<open>parse_body_head\<close> depends only on the bytes
  \<^verbatim>\<open>buf[0..n)\<close>; and when these bytes contain no \<^verbatim>\<open>"\r\n\r\n"\<close> the call is a no-op.
\<close>

theorem parse_body_head_terminated_buffer:
  assumes "p + n \<le> length mem1" and "p + n \<le> length mem2" and "n < 2 ^ 31"
    and "take n (drop p mem1) = take n (drop p mem2)"
    and "NUL \<in> set (take (Suc n) (drop p mem1))"
    and "NUL \<in> set (take (Suc n) (drop p mem2))"
  shows "parse_body_head alloc mem1 (Some (int p)) (int n) outs =
           parse_body_head alloc mem2 (Some (int p)) (int n) outs \<and>
         (\<not> sublist head_body_sep (take n (drop p mem1)) \<longrightarrow>
            parse_body_head alloc mem1 (Some (int p)) (int n) outs = Inr outs)"
proof -
  have 1: "parse_body_head alloc mem1 (Some (int p)) (int n) outs =
           parse_body_head alloc mem2 (Some (int p)) (int n) outs"
    unfolding parse_body_head_closed [OF assms(1) assms(3) assms(5)]
      parse_body_head_closed [OF assms(2) assms(3) assms(6)] assms(4) ..
  have 2: "parse_body_head alloc mem1 (Some (int p)) (int n) outs = Inr outs"
    if "\<not> sublist head_body_sep (take n (drop p mem1))"
  proof -
    from that have "\<not> sublist head_body_sep
        (takeWhile (\<lambda>c. c \<noteq> NUL) (take n (drop p mem1)))"
      using sublist_takeWhile by blast
    then have "strstr (takeWhile (\<lambda>c. c \<noteq> NUL) (take n (drop p mem1))) head_body_sep = None"
      by (simp add: strstr_None_iff)
    then show ?thesis
      unfolding parse_body_head_closed [OF assms(1) assms(3) assms(5)] by simp
  qed
  from 1 2 show ?thesis by blast
qed

theorem parse_body_head_terminated_buffer_witness:
  "take 2 (''ab'' @ [NUL] @ ''x'') = take 2 (''ab'' @ [NUL] @ ''y'') \<and>
   parse_body_head always_alloc (''ab'' @ [NUL] @ ''x'') (Some 0) 2 no_body_head =
     parse_body_head always_alloc (''ab'' @ [NUL] @ ''y'') (Some 0) 2 no_body_head \<and>
   parse_body_head always_alloc (''ab'' @ [NUL] @ ''x'') (Some 0) 2 no_body_head =
     Inr no_body_head"
proof -
  have 1: "0 + 2 \<le> length (''ab'' @ [NUL] @ ''x'')" by simp
  have 2: "0 + 2 \<le> length (''ab'' @ [NUL] @ ''y'')" by simp
  have 3: "(2::nat) < 2 ^ 31" by simp
  have 4: "take 2 (drop 0 (''ab'' @ [NUL] @ ''x'')) = take 2 (drop 0 (''ab'' @ [NUL] @ ''y''))"
    by simp
  have 5: "NUL \<in> set (take (Suc 2) (drop 0 (''ab'' @ [NUL] @ ''x'')))" by simp
  have 6: "NUL \<in> set (take (Suc 2) (drop 0 (''ab'' @ [NUL] @ ''y'')))" by simp
  have 7: "\<not> sublist head_body_sep (take 2 (drop 0 (''ab'' @ [NUL] @ ''x'')))"
    unfolding strstr_None_iff [symmetric] by (simp add: chars)
  from parse_body_head_terminated_buffer [OF 1 2 3 4 5 6, of always_alloc no_body_head] 7
  show ?thesis by auto
qed

section \<open>The splitter at the separator\<close>

text \<open>
  C2, as the specification states it, fails for a buffer with a \<open>NUL\<close> byte before
  the separator: the first \<^verbatim>\<open>"\r\n\r\n"\<close> of the six declared bytes starts at offset 2,
  but the scan stops at the \<open>NUL\<close> at offset 1 and nothing is returned.
\<close>

theorem parse_body_head_stops_at_NUL:
  "first_occ head_body_sep (take 6 (''a'' @ [NUL] @ CRLF @ CRLF)) 2 \<and>
   parse_body_head always_alloc (''a'' @ [NUL] @ CRLF @ CRLF) (Some 0) 6 no_body_head =
     Inr no_body_head \<and>
   Inr no_body_head \<noteq>
     (Inr (no_body_head\<lparr>out_head := StrPtr (''a'' @ [NUL] @ CRLF), out_head_len := 4,
                         out_body := StrPtr [], out_body_len := 0\<rparr>) :: error + body_head_out)"
proof -
  have 1: "first_occ head_body_sep (take 6 (''a'' @ [NUL] @ CRLF @ CRLF)) 2"
    unfolding strstr_Some_iff [symmetric] by (simp add: chars)
  have 2: "parse_body_head always_alloc (''a'' @ [NUL] @ CRLF @ CRLF) (Some 0) 6 no_body_head =
     Inr no_body_head"
    by (simp add: parse_body_head_def cstr_def chars)
  have 3: "Inr no_body_head \<noteq>
     (Inr (no_body_head\<lparr>out_head := StrPtr (''a'' @ [NUL] @ CRLF), out_head_len := 4,
                         out_body := StrPtr [], out_body_len := 0\<rparr>) :: error + body_head_out)"
    by (simp add: no_body_head_def)
  from 1 2 3 show ?thesis by blast
qed

text \<open>
  C2, amended. For every buffer of length \<open>n\<close> (an \<^verbatim>\<open>int\<close>) in memory, with a \<open>NUL\<close>
  somewhere at or after it, in which the first occurrence of \<^verbatim>\<open>"\r\n\r\n"\<close> starts at
  offset \<open>pos\<close> and no \<open>NUL\<close> byte comes before \<open>pos\<close>, and with allocation
  succeeding, \<^verbatim>\<open>parse_body_head\<close> returns head = bytes \<open>[0, pos + 2)\<close> with head
  length \<open>pos + 2\<close>, and body = bytes \<open>[pos + 4, n)\<close> with body length
  \<open>n - (pos + 4)\<close>, possibly zero.
\<close>

theorem parse_body_head_splits_at_separator:
  assumes "p + n \<le> length mem" and "n < 2 ^ 31" and "NUL \<in> set (drop p mem)"
    and "first_occ head_body_sep (take n (drop p mem)) pos"
    and "NUL \<notin> set (take pos (drop p mem))"
    and "\<forall>k. alloc k"
  shows "parse_body_head alloc mem (Some (int p)) (int n) outs =
           Inr (outs\<lparr>out_head := StrPtr (take (pos + 2) (take n (drop p mem))),
                     out_head_len := int pos + 2,
                     out_body := StrPtr (drop (pos + 4) (take n (drop p mem))),
                     out_body_len := int n - (int pos + 4)\<rparr>)"
proof -
  let ?b = "drop p mem"
  from assms(3) obtain s where c: "cstr mem (int p) = Some s" by (simp add: cstr_def)
  from assms(1) have "length (take n ?b) = n" by simp
  moreover from assms(4) have "pos + length head_body_sep \<le> length (take n ?b)"
    by (rule first_occ_le_length) (simp add: chars)
  ultimately have pos: "pos + 4 \<le> n" by simp
  then have pos': "pos + length head_body_sep \<le> n" by simp
  have f: "first_occ head_body_sep s pos"
    using c assms(4) pos' assms(5) sep_no_NUL by (rule first_occ_in_cstr)
  from assms(6) have a: "alloc (pos + 3)" "alloc (n - pos - 3)" by blast+
  show ?thesis
    using a pos
    by (simp add: parse_body_head_found [OF c f pos assms(2) assms(1)] drop_take min_absorb1
        ac_simps)
qed

theorem parse_body_head_splits_at_separator_witness:
  "parse_body_head always_alloc (get_request @ [NUL]) (Some 0) 32 no_body_head =
     Inr \<lparr>out_head = StrPtr (''GET /x HTTP/1.1'' @ CRLF @ ''Host: a.com'' @ CRLF),
          out_head_len = 30, out_body = StrPtr [], out_body_len = 0\<rparr>"
proof -
  have 1: "0 + 32 \<le> length (get_request @ [NUL])" by (simp add: get_request_def chars)
  have 2: "(32::nat) < 2 ^ 31" by simp
  have 3: "NUL \<in> set (drop 0 (get_request @ [NUL]))" by simp
  have 4: "first_occ head_body_sep (take 32 (drop 0 (get_request @ [NUL]))) 28"
    unfolding strstr_Some_iff [symmetric] by (simp add: get_request_def chars)
  have 5: "NUL \<notin> set (take 28 (drop 0 (get_request @ [NUL])))"
    by (simp add: get_request_def chars)
  have 6: "\<forall>k. always_alloc k" by (simp add: always_alloc_def)
  from parse_body_head_splits_at_separator [OF 1 2 3 4 5 6, of no_body_head]
  show ?thesis by (simp add: get_request_def chars no_body_head_def)
qed

section \<open>The request line\<close>

text \<open>
  C6 says that \<^verbatim>\<open>parse_request_line\<close> takes the method up to \<^verbatim>\<open>" "\<close>, the URL up to
  the next \<^verbatim>\<open>" "\<close> and the version up to \<^verbatim>\<open>"\r\n"\<close>, that a request line in which one
  of the three delimiters is missing is invalid, and that the returned length is
  otherwise the offset right after the \<^verbatim>\<open>"\r\n"\<close> that ends the line. The source
  searches each delimiter in the whole rest of the string, not in the line. The request
  line \<^verbatim>\<open>GET /x\<close> has a single space and ends at offset 6; followed by the header
  line \<^verbatim>\<open>Host: a.com\<close> it is accepted, with the space of the header line as its second
  delimiter: the URL spans both lines and the length is 21, the end of the header line.
  The order of the tokens, the result \<open>- 1\<close> and the length hold where "missing" is
  read over the rest of the string (\<open>parse_request_line_no_method\<close>,
  \<open>parse_request_line_no_url\<close>, \<open>parse_request_line_no_version\<close>,
  \<open>parse_request_line_valid\<close>).
\<close>

theorem parse_request_line_scans_past_line_end:
  "\<not> sublist '' '' ''GET'' \<and> \<not> sublist '' '' ''/x'' \<and> \<not> sublist CRLF ''GET /x'' \<and>
   urlless_request = ''GET'' @ '' '' @ ''/x'' @ CRLF @ ''Host: a.com'' @ CRLF \<and>
   parse_request_line always_alloc (urlless_request @ [NUL]) (Some 0)
       (NullPtr, NullPtr, NullPtr) =
     Inr (21, StrPtr ''GET'', StrPtr (''/x'' @ CRLF @ ''Host:''), StrPtr ''a.com'')"
proof -
  have 1: "\<not> sublist '' '' ''GET''" "\<not> sublist '' '' ''/x''" "\<not> sublist CRLF ''GET /x''"
    unfolding strstr_None_iff [symmetric] by (simp_all add: chars)
  have 2: "urlless_request = ''GET'' @ '' '' @ ''/x'' @ CRLF @ ''Host: a.com'' @ CRLF"
    by (simp add: urlless_request_def)
  have 3: "parse_request_line always_alloc (urlless_request @ [NUL]) (Some 0)
       (NullPtr, NullPtr, NullPtr) =
     Inr (21, StrPtr ''GET'', StrPtr (''/x'' @ CRLF @ ''Host:''), StrPtr ''a.com'')"
    by (simp add: parse_request_line_def urlless_request_def eval_defs)
  from 1 2 3 show ?thesis by blast
qed

section \<open>A header line without a separator before its end\<close>

text \<open>
  C5 says that a header line with no \<^verbatim>\<open>": "\<close> before its terminating \<^verbatim>\<open>"\r\n"\<close> is
  invalid. The source searches \<^verbatim>\<open>": "\<close> in the whole string, not in the line: the line
  \<^verbatim>\<open>bad\<close> followed by a well-formed \<^verbatim>\<open>Host\<close> line is accepted, with a name that spans
  both lines and the length of both. Where the whole string holds no \<^verbatim>\<open>": "\<close> the
  result is \<open>- 1\<close> (\<open>parse_header_line_no_name\<close>).
\<close>

theorem parse_header_line_scans_past_line_end:
  "\<not> sublist '': '' ''bad'' \<and>
   parse_header_line always_alloc (''bad'' @ CRLF @ ''Host: a'' @ CRLF @ [NUL]) (Some 0)
       (NullPtr, NullPtr) =
     Inr (14, StrPtr (''bad'' @ CRLF @ ''Host''), StrPtr ''a'')"
proof -
  have 1: "\<not> sublist '': '' ''bad''"
    unfolding strstr_None_iff [symmetric] by simp
  have 2: "parse_header_line always_alloc (''bad'' @ CRLF @ ''Host: a'' @ CRLF @ [NUL]) (Some 0)
       (NullPtr, NullPtr) =
     Inr (14, StrPtr (''bad'' @ CRLF @ ''Host''), StrPtr ''a'')"
    by (simp add: parse_header_line_def get_prefix_def cstr_def always_alloc_def ptr_diff_def
        chars)
  from 1 2 show ?thesis ..
qed

section \<open>The status line\<close>



section \<open>The host field\<close>

text \<open>
  C9. \<^verbatim>\<open>parse_host_field\<close> splits its input on the first \<^verbatim>\<open>":"\<close>. Without a colon the
  host name is the whole input and the port keeps its value; with a colon as the last
  character the port keeps its value; otherwise the host name is the text before the
  colon and the port is what \<^verbatim>\<open>atoi\<close> decodes from the characters after it: their
  decimal value when they are digits (within the range of \<^verbatim>\<open>int\<close>), 0 when they are
  non-numeric, never an error. Allocation is taken to succeed.
\<close>

theorem parse_host_field_splits_on_first_colon:
  assumes "cstr mem h = Some s" and "\<forall>k. alloc k"
  shows "(\<not> sublist '':'' s \<longrightarrow>
            parse_host_field alloc mem (Some h) outs =
              Inr (outs\<lparr>out_hostname := StrPtr s\<rparr>)) \<and>
         (first_occ '':'' s i \<and> i + 1 = length s \<longrightarrow>
            parse_host_field alloc mem (Some h) outs =
              Inr (outs\<lparr>out_hostname := StrPtr (take i s)\<rparr>)) \<and>
         (first_occ '':'' s i \<and> i + 1 < length s \<and> (\<forall>c\<in>set (drop (i + 1) s). isdigit c) \<and>
          decimal (drop (i + 1) s) < 2 ^ 31 \<longrightarrow>
            parse_host_field alloc mem (Some h) outs =
              Inr (outs\<lparr>out_hostname := StrPtr (take i s),
                        out_port := decimal (drop (i + 1) s)\<rparr>)) \<and>
         (first_occ '':'' s i \<and> i + 1 < length s \<and> non_numeric (drop (i + 1) s) \<longrightarrow>
            parse_host_field alloc mem (Some h) outs =
              Inr (outs\<lparr>out_hostname := StrPtr (take i s), out_port := 0\<rparr>)) \<and>
         (first_occ '':'' s i \<and> i + 1 < length s \<and> atoi (drop (i + 1) s) = Inr port \<longrightarrow>
            parse_host_field alloc mem (Some h) outs =
              Inr (outs\<lparr>out_hostname := StrPtr (take i s), out_port := port\<rparr>))"
proof -
  have 1: "parse_host_field alloc mem (Some h) outs = Inr (outs\<lparr>out_hostname := StrPtr s\<rparr>)"
    if "\<not> sublist '':'' s"
    using assms that by (rule parse_host_field_no_colon)
  have 2: "parse_host_field alloc mem (Some h) outs =
      Inr (outs\<lparr>out_hostname := StrPtr (take i s)\<rparr>)"
    if "first_occ '':'' s i" and "i + 1 = length s"
    using that(2) by (simp add: parse_host_field_colon [OF assms that(1)])
  have 3: "parse_host_field alloc mem (Some h) outs =
      Inr (outs\<lparr>out_hostname := StrPtr (take i s), out_port := decimal (drop (i + 1) s)\<rparr>)"
    if "first_occ '':'' s i" and "i + 1 < length s"
      and "\<forall>c\<in>set (drop (i + 1) s). isdigit c" and "decimal (drop (i + 1) s) < 2 ^ 31"
  proof -
    from that(2) have "drop (i + 1) s \<noteq> []" by simp
    then have "atoi (drop (i + 1) s) = Inr (decimal (drop (i + 1) s))"
      using that(3,4) by (rule atoi_digits)
    with that(2) show ?thesis
      by (simp only: parse_host_field_colon [OF assms that(1)] if_True sum.case)
  qed
  have 4: "parse_host_field alloc mem (Some h) outs =
      Inr (outs\<lparr>out_hostname := StrPtr (take i s), out_port := 0\<rparr>)"
    if "first_occ '':'' s i" and "i + 1 < length s" and "non_numeric (drop (i + 1) s)"
  proof -
    from that(3) have "atoi (drop (i + 1) s) = Inr 0" by (rule atoi_non_numeric)
    with that(2) show ?thesis
      by (simp only: parse_host_field_colon [OF assms that(1)] if_True sum.case)
  qed
  have 5: "parse_host_field alloc mem (Some h) outs =
      Inr (outs\<lparr>out_hostname := StrPtr (take i s), out_port := port\<rparr>)"
    if "first_occ '':'' s i" and "i + 1 < length s" and "atoi (drop (i + 1) s) = Inr port"
    using that(2,3)
    by (simp only: parse_host_field_colon [OF assms that(1)] if_True sum.case)
  from 1 2 3 4 5 show ?thesis by blast
qed

theorem parse_host_field_splits_on_first_colon_witness:
  "parse_host_field always_alloc (''a.com'' @ [NUL]) (Some 0) no_host =
     Inr \<lparr>out_hostname = StrPtr ''a.com'', out_port = - 1\<rparr> \<and>
   parse_host_field always_alloc (''a.com:'' @ [NUL]) (Some 0) no_host =
     Inr \<lparr>out_hostname = StrPtr ''a.com'', out_port = - 1\<rparr> \<and>
   parse_host_field always_alloc (''a.com:8080'' @ [NUL]) (Some 0) no_host =
     Inr \<lparr>out_hostname = StrPtr ''a.com'', out_port = 8080\<rparr> \<and>
   parse_host_field always_alloc (''a.com:http'' @ [NUL]) (Some 0) no_host =
     Inr \<lparr>out_hostname = StrPtr ''a.com'', out_port = 0\<rparr> \<and>
   parse_host_field always_alloc (''a.com:80x'' @ [NUL]) (Some 0) no_host =
     Inr \<lparr>out_hostname = StrPtr ''a.com'', out_port = 80\<rparr>"
proof -
  note a = always_alloc_all
  have c1: "cstr (''a.com'' @ [NUL]) 0 = Some ''a.com''"
    by (rule cstr_terminated) (simp add: chars)
  have h1: "\<not> sublist '':'' ''a.com''"
    unfolding strstr_None_iff [symmetric] by simp
  have c2: "cstr (''a.com:'' @ [NUL]) 0 = Some ''a.com:''"
    by (rule cstr_terminated) (simp add: chars)
  have h2: "first_occ '':'' ''a.com:'' 5 \<and> 5 + 1 = length ''a.com:''"
    unfolding strstr_Some_iff [symmetric] by simp
  have c3: "cstr (''a.com:8080'' @ [NUL]) 0 = Some ''a.com:8080''"
    by (rule cstr_terminated) (simp add: chars)
  have h3: "first_occ '':'' ''a.com:8080'' 5 \<and> 5 + 1 < length ''a.com:8080'' \<and>
      (\<forall>c\<in>set (drop (5 + 1) ''a.com:8080''). isdigit c) \<and>
      decimal (drop (5 + 1) ''a.com:8080'') < 2 ^ 31"
    unfolding strstr_Some_iff [symmetric] by (simp add: isdigit_def)
  have c4: "cstr (''a.com:http'' @ [NUL]) 0 = Some ''a.com:http''"
    by (rule cstr_terminated) (simp add: chars)
  have h4: "first_occ '':'' ''a.com:http'' 5 \<and> 5 + 1 < length ''a.com:http'' \<and>
      non_numeric (drop (5 + 1) ''a.com:http'')"
    unfolding strstr_Some_iff [symmetric]
    by (simp add: non_numeric_def skip_sign_def isspace_def isdigit_def)
  from parse_host_field_splits_on_first_colon [OF c1 a, where outs = no_host] h1
  have r1: "parse_host_field always_alloc (''a.com'' @ [NUL]) (Some 0) no_host =
     Inr \<lparr>out_hostname = StrPtr ''a.com'', out_port = - 1\<rparr>"
    by (simp add: no_host_def)
  from parse_host_field_splits_on_first_colon [OF c2 a, where outs = no_host and i = 5] h2
  have r2: "parse_host_field always_alloc (''a.com:'' @ [NUL]) (Some 0) no_host =
     Inr \<lparr>out_hostname = StrPtr ''a.com'', out_port = - 1\<rparr>"
    by (simp add: no_host_def)
  from parse_host_field_splits_on_first_colon [OF c3 a, where outs = no_host and i = 5] h3
  have r3: "parse_host_field always_alloc (''a.com:8080'' @ [NUL]) (Some 0) no_host =
     Inr \<lparr>out_hostname = StrPtr ''a.com'', out_port = 8080\<rparr>"
    by (simp add: no_host_def)
  from parse_host_field_splits_on_first_colon [OF c4 a, where outs = no_host and i = 5] h4
  have r4: "parse_host_field always_alloc (''a.com:http'' @ [NUL]) (Some 0) no_host =
     Inr \<lparr>out_hostname = StrPtr ''a.com'', out_port = 0\<rparr>"
    by (simp add: no_host_def)
  have c5: "cstr (''a.com:80x'' @ [NUL]) 0 = Some ''a.com:80x''"
    by (rule cstr_terminated) (simp add: chars)
  have h5: "first_occ '':'' ''a.com:80x'' 5 \<and> 5 + 1 < length ''a.com:80x'' \<and>
      atoi (drop (5 + 1) ''a.com:80x'') = Inr 80"
    unfolding strstr_Some_iff [symmetric]
    by (simp add: atoi_def skip_sign_def isspace_def isdigit_def)
  from parse_host_field_splits_on_first_colon [OF c5 a, where outs = no_host and i = 5
      and port = 80] h5
  have r5: "parse_host_field always_alloc (''a.com:80x'' @ [NUL]) (Some 0) no_host =
     Inr \<lparr>out_hostname = StrPtr ''a.com'', out_port = 80\<rparr>"
    by (simp add: no_host_def)
  from r1 r2 r3 r4 r5 show ?thesis by blast
qed

section \<open>The header loops after a malformed line\<close>

text \<open>
  C3 says that the header loops of \<^verbatim>\<open>parse_request_head\<close> and
  \<^verbatim>\<open>parse_response_head\<close> terminate on every NUL-terminated head, the cursor advancing
  on every iteration. The source adds the result of \<^verbatim>\<open>parse_header_line\<close> to the cursor
  without testing it: on a malformed line it is \<open>- 1\<close> and the cursor moves one byte
  back. On a head with the header lines \<^verbatim>\<open>A: b\<close> and \<^verbatim>\<open>bad\<close> the cursor walks back from
  \<^verbatim>\<open>bad\<close> to the \<^verbatim>\<open>": "\<close> of the line before, parses from there up to the same place,
  and never reaches the end: both functions fail to return.
\<close>

theorem header_loops_run_forever_after_malformed_line:
  "parse_request_head always_alloc (looping_request @ [NUL]) (Some 0) no_request = None \<and>
   parse_response_head always_alloc (looping_response @ [NUL]) (Some 0) no_response = None \<and>
   request_header_step always_alloc (looping_request @ [NUL]) 22 NullPtr = Inr (21, NullPtr)"
  using parse_request_head_diverges parse_response_head_diverges
    looping_request_steps(7) [of NullPtr]
  by simp

section \<open>The head after an invalid first line\<close>

text \<open>
  C4 says that an invalid first line aborts the head parse, with no header line parsed
  and every header-derived field absent. The source does not test the result of
  \<^verbatim>\<open>parse_request_line\<close> or \<^verbatim>\<open>parse_status_line\<close> either: the cursor becomes
  \<^verbatim>\<open>request - 1\<close> and the header loop runs from the byte before the head. With
  \<^verbatim>\<open>H\<close> in that byte and the invalid first line \<^verbatim>\<open>ost: a.com\<close>, the host field is set;
  with the response at the start of the memory, the loop reads outside of it.
\<close>

theorem head_parse_goes_on_after_invalid_first_line:
  "parse_request_line always_alloc (shifted_request @ [NUL]) (Some 1)
       (NullPtr, NullPtr, NullPtr) = Inr (- 1, StrPtr ''ost:'', NullPtr, NullPtr) \<and>
   parse_request_head always_alloc (shifted_request @ [NUL]) (Some 1) no_request =
     Some (Inr \<lparr>req_method = StrPtr ''ost:'', req_url = NullPtr, req_version = NullPtr,
                req_host = StrPtr ''a.com''\<rparr>) \<and>
   parse_status_line always_alloc (spaceless_response @ [NUL]) (Some 0) (NullPtr, 0, NullPtr) =
     Inr (- 1, NullPtr, 0, NullPtr) \<and>
   parse_response_head always_alloc (spaceless_response @ [NUL]) (Some 0) no_response =
     Some (Inl OutOfBounds)"
proof -
  have 1: "parse_request_line always_alloc (shifted_request @ [NUL]) (Some 1)
       (NullPtr, NullPtr, NullPtr) = Inr (- 1, StrPtr ''ost:'', NullPtr, NullPtr)"
    by (simp add: parse_request_line_def shifted_request_def eval_defs)
  have s: "request_header_step always_alloc (shifted_request @ [NUL]) 0 NullPtr =
      Inr (13, StrPtr ''a.com'')"
    by (simp add: request_header_step_def shifted_request_def eval_defs)
  have "request_header_loop always_alloc (shifted_request @ [NUL]) 13 0 NullPtr =
      Some (Inr (StrPtr ''a.com''))"
    by (subst request_header_loop.simps, simp add: s)
      (subst request_header_loop.simps, simp)
  then have 2: "parse_request_head always_alloc (shifted_request @ [NUL]) (Some 1) no_request =
     Some (Inr \<lparr>req_method = StrPtr ''ost:'', req_url = NullPtr, req_version = NullPtr,
                req_host = StrPtr ''a.com''\<rparr>)"
    using 1 by (simp add: parse_request_head_def no_request_def cstr_def shifted_request_def chars)
  have 3: "parse_status_line always_alloc (spaceless_response @ [NUL]) (Some 0) (NullPtr, 0, NullPtr) =
     Inr (- 1, NullPtr, 0, NullPtr)"
    by (simp add: parse_status_line_def spaceless_response_def eval_defs)
  have s': "response_header_step always_alloc (spaceless_response @ [NUL]) (- 1) (- 1, NullPtr) =
      Inl OutOfBounds"
    by (simp add: response_header_step_def spaceless_response_def eval_defs)
  have "response_header_loop always_alloc (spaceless_response @ [NUL]) 3 (- 1) (- 1, NullPtr) =
      Some (Inl OutOfBounds)"
    by (subst response_header_loop.simps) (simp add: s')
  then have 4: "parse_response_head always_alloc (spaceless_response @ [NUL]) (Some 0) no_response =
     Some (Inl OutOfBounds)"
    using 3
    by (simp add: parse_response_head_def no_response_def cstr_def spaceless_response_def chars)
  from 1 2 3 4 show ?thesis by blast
qed

end
